theory Spec2Isabelle
  imports Main "HOL-Library.AList"
begin

section \<open>Values and the store\<close>

text \<open>
  \<^verbatim>\<open>blob.go\<close> keeps a payload in a \<^verbatim>\<open>*simplejson.Json\<close>, a wrapper around one Go
  \<^verbatim>\<open>interface{}\<close> value. A Go map is a reference: two values may denote the same map
  object, and a write through one is seen through the other. The model therefore keeps
  map objects in an explicit store, a list of objects indexed by address, and a map value
  is the address of its object. An object is a list of entries read with \<open>map_of\<close> and
  written with \<open>AList.update\<close> (which overwrites an existing key in place and appends a
  new one); a Go map has no order, and no function below depends on the order. Go has
  no dangling reference: the address in a map value is below the length of the store
  (\<open>allocated\<close> and \<open>ranked\<close> below say so where a property needs it).

  Scalars are \<^verbatim>\<open>nil\<close>, booleans, Go integers, \<^verbatim>\<open>json.Number\<close> (the literal text of a
  number decoded from a payload), and strings. A slice is held by value: no function of
  \<^verbatim>\<open>blob.go\<close> writes into one. Floating-point numbers are left out.
\<close>

type_synonym addr = nat

datatype val =
    GoNil
  | GoBool bool
  | GoInt int
  | JsonNumber string
  | GoString string
  | Slice "val list"
  | MapRef addr

type_synonym object = "(string \<times> val) list"

type_synonym store = "object list"

definition make_map :: "store \<Rightarrow> store \<times> addr" where
  \<comment> \<open>\<^verbatim>\<open>make(map[string]interface{})\<close>: a new empty object at a fresh address.\<close>
  "make_map h = (h @ [[]], length h)"

section \<open>The part of go-simplejson that blob.go calls\<close>

text \<open>
  \<^verbatim>\<open>github.com/bitly/go-simplejson\<close> is a library that \<^verbatim>\<open>blob.go\<close> imports; its source
  is not among the repository's files. The definitions of this section follow the
  library's functions, quoted with each. A wrapper \<^verbatim>\<open>Json\<close> has one field, \<^verbatim>\<open>data\<close>;
  \<^verbatim>\<open>j.Map()\<close> succeeds when \<^verbatim>\<open>data\<close> is a map.
\<close>

definition New :: "store \<Rightarrow> store \<times> val" where
  \<comment> \<open>\<^verbatim>\<open>return &Json{data: make(map[string]interface{})}\<close>\<close>
  "New h = (let (h', n) = make_map h in (h', MapRef n))"

definition CheckGet :: "store \<Rightarrow> val \<Rightarrow> string \<Rightarrow> val option" where
  \<comment> \<open>\<^verbatim>\<open>m, err := j.Map(); if err == nil { if val, ok := m[key]; ok { return &Json{val}, true } };
      return nil, false\<close>\<close>
  "CheckGet h d key = (case d of MapRef a \<Rightarrow> map_of (h ! a) key | _ \<Rightarrow> None)"

definition Get :: "store \<Rightarrow> val \<Rightarrow> string \<Rightarrow> val" where
  \<comment> \<open>\<^verbatim>\<open>m, err := j.Map(); if err == nil { if val, ok := m[key]; ok { return &Json{val} } };
      return &Json{nil}\<close>. The wrapper returned is new; the value in it is the one the map
      holds, the same object when that is a map.\<close>
  "Get h d key =
     (case d of
        MapRef a \<Rightarrow> (case map_of (h ! a) key of Some v \<Rightarrow> v | None \<Rightarrow> GoNil)
      | _ \<Rightarrow> GoNil)"

definition GetPath :: "store \<Rightarrow> val \<Rightarrow> string list \<Rightarrow> val" where
  \<comment> \<open>\<^verbatim>\<open>jin := j; for _, p := range branch { jin = jin.Get(p) }; return jin\<close>\<close>
  "GetPath h d branch = foldl (Get h) d branch"

fun walk :: "store \<Rightarrow> addr \<Rightarrow> string list \<Rightarrow> store \<times> addr" where
  \<comment> \<open>The loop of \<^verbatim>\<open>SetPath\<close> over all segments but the last; \<open>cur\<close> is the Go variable
      \<^verbatim>\<open>curr\<close>, the map reached:
      \<^verbatim>\<open>b := branch[i];
        if _, ok := curr[b]; !ok { n := make(map[string]interface{}); curr[b] = n; curr = n; continue };
        if _, ok := curr[b].(map[string]interface{}); !ok { n := make(map[string]interface{}); curr[b] = n };
        curr = curr[b].(map[string]interface{})\<close>\<close>
  "walk h cur [] = (h, cur)"
| "walk h cur (b # bs) =
     (case map_of (h ! cur) b of
        None \<Rightarrow>
          (let (h1, n) = make_map h
           in walk (h1[cur := AList.update b (MapRef n) (h1 ! cur)]) n bs)
      | Some (MapRef a) \<Rightarrow> walk h a bs
      | Some _ \<Rightarrow>
          (let (h1, n) = make_map h
           in walk (h1[cur := AList.update b (MapRef n) (h1 ! cur)]) n bs))"

definition SetPath :: "store \<Rightarrow> val \<Rightarrow> string list \<Rightarrow> val \<Rightarrow> store \<times> val" where
  \<comment> \<open>\<^verbatim>\<open>if len(branch) == 0 { j.data = val; return };
        if _, ok := (j.data).(map[string]interface{}); !ok { j.data = make(map[string]interface{}) };
        curr := j.data.(map[string]interface{});
        for i := 0; i < len(branch)-1; i++ { ... };
        curr[branch[len(branch)-1]] = val\<close>.
      The result is the store and the wrapper's \<^verbatim>\<open>data\<close> field after the call.\<close>
  "SetPath h d branch v =
     (if branch = [] then (h, v)
      else
        let (h1, d1, a) =
              (case d of
                 MapRef a \<Rightarrow> (h, d, a)
               | _ \<Rightarrow> (let (h', n) = make_map h in (h', MapRef n, n)));
            (h2, cur) = walk h1 a (butlast branch)
        in (h2[cur := AList.update (last branch) v (h2 ! cur)], d1))"

section \<open>The parts of the Go library that blob.go calls\<close>

text \<open>
  \<^verbatim>\<open>strings.HasPrefix\<close>, \<^verbatim>\<open>strings.Split\<close> and \<^verbatim>\<open>fmt.Sprintf\<close> with the verb \<^verbatim>\<open>%v\<close>, as
  the Go documentation describes them.
\<close>

definition HasPrefix :: "string \<Rightarrow> string \<Rightarrow> bool" where
  "HasPrefix s p = (take (length p) s = p)"

fun Split :: "string \<Rightarrow> char \<Rightarrow> string list" where
  \<comment> \<open>\<^verbatim>\<open>strings.Split(s, sep)\<close> for a separator of one byte: the substrings between the
      separators. The result is never empty, so the last case is never taken.\<close>
  "Split [] sep = [[]]"
| "Split (c # cs) sep =
     (if c = sep then [] # Split cs sep
      else (case Split cs sep of w # ws \<Rightarrow> (c # w) # ws | [] \<Rightarrow> [[c]]))"

fun digits :: "nat \<Rightarrow> string" where
  "digits n =
     (if n < 10 then [''0123456789'' ! n]
      else digits (n div 10) @ [''0123456789'' ! (n mod 10)])"

declare digits.simps [simp del]

definition show_int :: "int \<Rightarrow> string" where
  "show_int i = (if i < 0 then CHR ''-'' # digits (nat (- i)) else digits (nat i))"

fun join_sp :: "string list \<Rightarrow> string" where
  "join_sp [] = []"
| "join_sp [s] = s"
| "join_sp (s # ss) = s @ '' '' @ join_sp ss"

fun Sprintf_v :: "(addr \<Rightarrow> string) \<Rightarrow> val \<Rightarrow> string" where
  \<comment> \<open>\<^verbatim>\<open>fmt.Sprintf("%v", x)\<close>. The text \<^verbatim>\<open>fmt\<close> prints for a map object, which it reads
      through the store, is the parameter \<open>fm\<close>.\<close>
  "Sprintf_v fm GoNil = ''<nil>''"
| "Sprintf_v fm (GoBool b) = (if b then ''true'' else ''false'')"
| "Sprintf_v fm (GoInt i) = show_int i"
| "Sprintf_v fm (JsonNumber s) = s"
| "Sprintf_v fm (GoString s) = s"
| "Sprintf_v fm (Slice vs) = ''['' @ join_sp (map (Sprintf_v fm) vs) @ '']''"
| "Sprintf_v fm (MapRef a) = fm a"

section \<open>The decoder behind simplejson.NewJson\<close>


datatype step =
    stateBeginValue | stateBeginValueOrEmpty | stateBeginStringOrEmpty | stateBeginString
  | stateEndValue | stateEndTop
  | stateInString | stateInStringEsc
  | stateInStringEscU | stateInStringEscU1 | stateInStringEscU12 | stateInStringEscU123
  | stateNeg | state1 | state0 | stateDot | stateDot0 | stateE | stateESign | stateE0
  | stateT | stateTr | stateTru
  | stateF | stateFa | stateFal | stateFals
  | stateN | stateNu | stateNul
  | stateError

















subsection \<open>Decoding string literals\<close>








subsection \<open>Building the value\<close>

text \<open>
  Go decodes the bytes of the value in a second pass over them; here the value is built
  while the scanner runs, from the codes it returns. \<open>pending\<close> holds the bytes of the
  literal being read, \<open>stack\<close> the objects and arrays that are open (an object with the key
  that awaits its value), \<open>heap\<close> the store, to which every object of the payload is
  added. With \<^verbatim>\<open>UseNumber\<close> a number is the \<^verbatim>\<open>json.Number\<close> of its text; a key that occurs
  twice keeps its last value.
\<close>

datatype frame = ObjectFrame addr "string option" | ArrayFrame "val list"








datatype json_error = SyntaxError char string | ErrUnexpectedEOF | EOF






section \<open>blob.go\<close>

definition MetadataType :: string where
  "MetadataType = ''_type''"

definition MetadataSnapshotId :: string where
  "MetadataSnapshotId = ''_snapshot_id''"

definition MetadataSnapshotField :: string where
  "MetadataSnapshotField = ''_snapshot_field''"

type_synonym time = int

text \<open>
  \<open>Data\<close> is the \<^verbatim>\<open>data\<close> field of the wrapper that the Go field \<^verbatim>\<open>Data\<close> points to:
  every wrapper made by \<^verbatim>\<open>blob.go\<close> belongs to one Blob, so the wrapper is held in the
  record. The Go field \<^verbatim>\<open>Id\<close> is \<open>Id_blob\<close> here.
\<close>

record Blob =
  Data :: val
  Id_blob :: string
  SnapshotId :: string
  SnapshotField :: string
  Timestamp :: time
  Type :: string

datatype error =
    JsonError json_error
    \<comment> \<open>the error of \<^verbatim>\<open>simplejson.NewJson\<close>, passed on (the spec's ParseError)\<close>
  | InvalidMetadataField string
    \<comment> \<open>\<^verbatim>\<open>"invalid metadata field %q"\<close> (the spec's UnknownMetadataKey)\<close>
  | BadValue val string
    \<comment> \<open>\<^verbatim>\<open>"bad value %v for %q attribute (expected string)"\<close> (the spec's InvalidMetadataValueType)\<close>

definition NewBlobFromJson :: "time \<Rightarrow> string \<Rightarrow> string \<Rightarrow> val \<Rightarrow> Blob" where
  \<comment> \<open>\<open>now\<close> is the reading of \<^verbatim>\<open>time.Now()\<close>.\<close>
  "NewBlobFromJson now event ident json =
     \<lparr>Data = json, Id_blob = ident, SnapshotId = [], SnapshotField = [],
      Timestamp = now, Type = event\<rparr>"

definition NewBlob :: "time \<Rightarrow> store \<Rightarrow> string \<Rightarrow> string \<Rightarrow> store \<times> Blob" where
  "NewBlob now h event ident =
     (let (h', d) = New h in (h', NewBlobFromJson now event ident d))"


definition HasAttribute :: "store \<Rightarrow> Blob \<Rightarrow> string \<Rightarrow> bool" where
  "HasAttribute h b attr = (case CheckGet h (Data b) attr of Some _ \<Rightarrow> True | None \<Rightarrow> False)"

datatype field = TypeField | SnapshotIdField | SnapshotFieldField

definition metaFields :: "(string \<times> field) list" where
  \<comment> \<open>The table of pointers \<^verbatim>\<open>&b.Type\<close>, \<^verbatim>\<open>&b.SnapshotId\<close>, \<^verbatim>\<open>&b.SnapshotField\<close>.\<close>
  "metaFields =
     [(MetadataType, TypeField),
      (MetadataSnapshotId, SnapshotIdField),
      (MetadataSnapshotField, SnapshotFieldField)]"

fun assign :: "field \<Rightarrow> string \<Rightarrow> Blob \<Rightarrow> Blob" where
  \<comment> \<open>\<^verbatim>\<open>*target = strValue\<close>\<close>
  "assign TypeField s b = b\<lparr>Type := s\<rparr>"
| "assign SnapshotIdField s b = b\<lparr>SnapshotId := s\<rparr>"
| "assign SnapshotFieldField s b = b\<lparr>SnapshotField := s\<rparr>"

definition pushSpecialAttribute :: "string \<Rightarrow> val \<Rightarrow> Blob \<Rightarrow> error option \<times> Blob" where
  "pushSpecialAttribute key v b =
     (case map_of metaFields key of
        None \<Rightarrow> (Some (InvalidMetadataField key), b)
      | Some target \<Rightarrow>
          (case v of
             GoString strValue \<Rightarrow> (None, assign target strValue b)
           | _ \<Rightarrow> (Some (BadValue v key), b)))"

definition Push :: "string \<Rightarrow> val \<Rightarrow> store \<times> Blob \<Rightarrow> error option \<times> store \<times> Blob" where
  \<comment> \<open>The error returned, and the store and the Blob after the call.\<close>
  "Push key v s =
     (let (h, b) = s in
      if HasPrefix key ''_'' then
        (let (e, b') = pushSpecialAttribute key v b in (e, h, b'))
      else
        (let (h', d') = SetPath h (Data b) (Split key CHR ''.'') v
         in (None, h', b\<lparr>Data := d'\<rparr>)))"

definition Snapshot :: "(store \<Rightarrow> addr \<Rightarrow> string) \<Rightarrow> store \<Rightarrow> Blob \<Rightarrow> Blob option" where
  \<comment> \<open>\<open>None\<close> is the \<^verbatim>\<open>nil\<close> result. The fields that the Go struct literal does not name
      are empty strings.\<close>
  "Snapshot fm h b =
     (if SnapshotId b = [] \<or> SnapshotField b = [] then None
      else
        let snapshot = Get h (Data b) (SnapshotField b);
            snapshotId = Sprintf_v (fm h) (GetPath h snapshot (Split (SnapshotId b) CHR ''.''))
        in Some \<lparr>Data = snapshot, Id_blob = snapshotId, SnapshotId = [], SnapshotField = [],
                 Timestamp = Timestamp b, Type = Type b\<rparr>)"

section \<open>Notions used to state the properties\<close>

text \<open>
  The document a value denotes in a store, as a tree: map references are followed, at most
  \<open>n\<close> levels deep. \<open>None\<close> means that \<open>n\<close> levels do not reach every leaf.
\<close>

datatype json =
    JNull
  | JBool bool
  | JInt int
  | JNumber string
  | JString string
  | JArray "json list"
  | JObject "(string \<times> json) list"

primrec tree_of :: "nat \<Rightarrow> store \<Rightarrow> val \<Rightarrow> json option" where
  "tree_of 0 h v = None"
| "tree_of (Suc n) h v =
     (case v of
        GoNil \<Rightarrow> Some JNull
      | GoBool b \<Rightarrow> Some (JBool b)
      | GoInt i \<Rightarrow> Some (JInt i)
      | JsonNumber s \<Rightarrow> Some (JNumber s)
      | GoString s \<Rightarrow> Some (JString s)
      | Slice vs \<Rightarrow> map_option JArray (those (map (tree_of n h) vs))
      | MapRef a \<Rightarrow>
          map_option JObject
            (those (map (\<lambda>(k, x). map_option (Pair k) (tree_of n h x)) (h ! a))))"



fun lookup_path :: "store \<Rightarrow> val \<Rightarrow> string list \<Rightarrow> val option" where
  \<comment> \<open>The value at a path when every segment is a key that is present, \<open>None\<close> otherwise.\<close>
  "lookup_path h d [] = Some d"
| "lookup_path h d (p # ps) =
     (case CheckGet h d p of None \<Rightarrow> None | Some v \<Rightarrow> lookup_path h v ps)"

definition ranked :: "(addr \<Rightarrow> nat) \<Rightarrow> store \<Rightarrow> bool" where
  \<comment> \<open>Every map held as a field of an object of the store is an object of the store of
      lower rank: the store has no dangling address and no cycle of objects.\<close>
  "ranked rank h \<longleftrightarrow>
     (\<forall>a k a'. a < length h \<longrightarrow> (k, MapRef a') \<in> set (h ! a) \<longrightarrow>
        a' < length h \<and> rank a' < rank a)"

definition allocated :: "store \<Rightarrow> val \<Rightarrow> bool" where
  \<comment> \<open>A map value refers to an object of the store.\<close>
  "allocated h d = (case d of MapRef a \<Rightarrow> a < length h | _ \<Rightarrow> True)"

fun is_scalar :: "val \<Rightarrow> bool" where
  \<comment> \<open>\<^verbatim>\<open>nil\<close>, a boolean, a number or a string: a value whose document does not depend
      on the store.\<close>
  "is_scalar (Slice vs) = False"
| "is_scalar (MapRef a) = False"
| "is_scalar v = True"

fun pushes :: "(string \<times> val) list \<Rightarrow> store \<times> Blob \<Rightarrow> store \<times> Blob" where
  \<comment> \<open>A sequence of calls of \<open>Push\<close>; a call that returns an error is followed by the next.\<close>
  "pushes [] s = s"
| "pushes ((key, v) # ops) s = pushes ops (snd (Push key v s))"

fun last_pushed :: "string \<Rightarrow> (string \<times> val) list \<Rightarrow> string \<Rightarrow> string" where
  \<comment> \<open>The last string pushed under the key \<open>k\<close>, or \<open>s\<close> when no string was.\<close>
  "last_pushed k [] s = s"
| "last_pushed k ((key, v) # ops) s =
     last_pushed k ops (case v of GoString t \<Rightarrow> if key = k then t else s | _ \<Rightarrow> s)"

subsection \<open>The example of the specification\<close>

definition ex_store :: "val \<Rightarrow> store" where
  \<comment> \<open>\<^verbatim>\<open>{"repository":{"id":42},"ref":"refs/heads/main"}\<close>, with \<open>n\<close> for the number.\<close>
  "ex_store n =
     [[(''repository'', MapRef 1), (''ref'', GoString ''refs/heads/main'')],
      [(''id'', n)]]"

definition ex_blob :: Blob where
  "ex_blob =
     \<lparr>Data = MapRef 0, Id_blob = ''1'', SnapshotId = ''id'', SnapshotField = ''repository'',
      Timestamp = 1446336000, Type = ''push_event''\<rparr>"

definition ex_rank :: "addr \<Rightarrow> nat" where
  "ex_rank a = 1 - a"

definition ex_fm :: "store \<Rightarrow> addr \<Rightarrow> string" where
  \<comment> \<open>A rendering of map objects, for the examples.\<close>
  "ex_fm h a = ''map[]''"

definition ex_snapshot :: Blob where
  "ex_snapshot =
     \<lparr>Data = MapRef 1, Id_blob = ''42'', SnapshotId = [], SnapshotField = [],
      Timestamp = 1446336000, Type = ''push_event''\<rparr>"

definition ex_ref_snapshot :: Blob where
  "ex_ref_snapshot =
     \<lparr>Data = GoString ''refs/heads/main'', Id_blob = ''<nil>'', SnapshotId = [],
      SnapshotField = [], Timestamp = 1446336000, Type = ''push_event''\<rparr>"



section \<open>Reserved keys\<close>

lemma map_of_metaFields_None:
  "key \<notin> {MetadataType, MetadataSnapshotId, MetadataSnapshotField} \<Longrightarrow>
     map_of metaFields key = None"
  by (simp add: metaFields_def)

lemma map_of_metaFields_Some:
  "key \<in> {MetadataType, MetadataSnapshotId, MetadataSnapshotField} \<Longrightarrow>
     \<exists>target. map_of metaFields key = Some target"
  by (auto simp: metaFields_def)

lemma HasPrefix_metadata:
  "key \<in> {MetadataType, MetadataSnapshotId, MetadataSnapshotField} \<Longrightarrow> HasPrefix key ''_''"
  by (auto simp: HasPrefix_def MetadataType_def MetadataSnapshotId_def MetadataSnapshotField_def)

text \<open>
  Claim C2. A push whose key starts with \<^verbatim>\<open>_\<close> and is none of \<^verbatim>\<open>_type\<close>,
  \<^verbatim>\<open>_snapshot_id\<close>, \<^verbatim>\<open>_snapshot_field\<close> returns the error "invalid metadata field" (the
  spec's UnknownMetadataKey), whatever the value, and leaves the store and every field of
  the Blob as they were.
\<close>

theorem Push_unknown_metadata_key:
  assumes "HasPrefix key ''_''"
    and "key \<notin> {MetadataType, MetadataSnapshotId, MetadataSnapshotField}"
  shows "Push key v (h, b) = (Some (InvalidMetadataField key), h, b)"
  using assms(1) map_of_metaFields_None [OF assms(2)]
  by (simp add: Push_def pushSpecialAttribute_def)

theorem Push_unknown_metadata_key_witness:
  "HasPrefix ''_unknown'' ''_''
   \<and> ''_unknown'' \<notin> {MetadataType, MetadataSnapshotId, MetadataSnapshotField}
   \<and> Push ''_unknown'' (GoString ''x'') (ex_store (GoInt 42), ex_blob)
       = (Some (InvalidMetadataField ''_unknown''), ex_store (GoInt 42), ex_blob)"
proof -
  have p: "HasPrefix ''_unknown'' ''_''"
    by (simp add: HasPrefix_def)
  have n: "''_unknown'' \<notin> {MetadataType, MetadataSnapshotId, MetadataSnapshotField}"
    by (simp add: MetadataType_def MetadataSnapshotId_def MetadataSnapshotField_def)
  show ?thesis
    using p n Push_unknown_metadata_key [OF p n, of "GoString ''x''" "ex_store (GoInt 42)" ex_blob]
    by simp
qed

text \<open>
  Claim C3. A push of one of the three reserved keys with a value that is not a Go string
  returns the error "bad value ... (expected string)" (the spec's
  InvalidMetadataValueType) and leaves the store and every field of the Blob as they were.
\<close>

theorem Push_metadata_bad_value:
  assumes "key \<in> {MetadataType, MetadataSnapshotId, MetadataSnapshotField}"
    and "\<forall>s. v \<noteq> GoString s"
  shows "Push key v (h, b) = (Some (BadValue v key), h, b)"
proof -
  obtain target where "map_of metaFields key = Some target"
    using map_of_metaFields_Some [OF assms(1)] by blast
  then show ?thesis
    using HasPrefix_metadata [OF assms(1)] assms(2)
    by (cases v) (simp_all add: Push_def pushSpecialAttribute_def)
qed

theorem Push_metadata_bad_value_witness:
  "MetadataSnapshotId \<in> {MetadataType, MetadataSnapshotId, MetadataSnapshotField}
   \<and> (\<forall>s. GoInt 7 \<noteq> GoString s)
   \<and> Push MetadataSnapshotId (GoInt 7) (ex_store (GoInt 42), ex_blob)
       = (Some (BadValue (GoInt 7) MetadataSnapshotId), ex_store (GoInt 42), ex_blob)"
proof -
  have k: "MetadataSnapshotId \<in> {MetadataType, MetadataSnapshotId, MetadataSnapshotField}"
    by simp
  have v: "\<forall>s. GoInt 7 \<noteq> GoString s"
    by simp
  show ?thesis
    using k v Push_metadata_bad_value [OF k v, of "ex_store (GoInt 42)" ex_blob]
    by simp
qed

text \<open>
  Claim C5. A push of a reserved key with a string succeeds and stores the string in the
  field of that key: \<^verbatim>\<open>_type\<close> in \<open>Type\<close>, \<^verbatim>\<open>_snapshot_id\<close> in \<open>SnapshotId\<close>,
  \<^verbatim>\<open>_snapshot_field\<close> in \<open>SnapshotField\<close>. The store is the same afterwards and so is
  \<open>Data\<close>: the document has no new and no changed key.
\<close>

theorem Push_metadata_string:
  "Push MetadataType (GoString s) (h, b) = (None, h, b\<lparr>Type := s\<rparr>)
   \<and> Push MetadataSnapshotId (GoString s) (h, b) = (None, h, b\<lparr>SnapshotId := s\<rparr>)
   \<and> Push MetadataSnapshotField (GoString s) (h, b) = (None, h, b\<lparr>SnapshotField := s\<rparr>)
   \<and> Data (b\<lparr>Type := s\<rparr>) = Data b
   \<and> Data (b\<lparr>SnapshotId := s\<rparr>) = Data b
   \<and> Data (b\<lparr>SnapshotField := s\<rparr>) = Data b"
  by (simp add: Push_def pushSpecialAttribute_def metaFields_def HasPrefix_def
      MetadataType_def MetadataSnapshotId_def MetadataSnapshotField_def)

theorem Push_metadata_string_witness:
  "Push ''_type'' (GoString ''issue'') ([[]], NewBlobFromJson 0 ''e'' ''1'' (MapRef 0))
     = (None, [[]], (NewBlobFromJson 0 ''e'' ''1'' (MapRef 0))\<lparr>Type := ''issue''\<rparr>)
   \<and> tree_of 1 [[]] (Data ((NewBlobFromJson 0 ''e'' ''1'' (MapRef 0))\<lparr>Type := ''issue''\<rparr>))
       = Some (JObject [])"
  using Push_metadata_string [of "''issue''" "[[]]" "NewBlobFromJson 0 ''e'' ''1'' (MapRef 0)"]
  by (simp add: MetadataType_def NewBlobFromJson_def)

section \<open>Construction from a payload\<close>












section \<open>Sequences of pushes\<close>

lemma pushSpecialAttribute_SnapshotId:
  "SnapshotId (snd (pushSpecialAttribute key v b))
     = (case v of GoString t \<Rightarrow> if key = MetadataSnapshotId then t else SnapshotId b
        | _ \<Rightarrow> SnapshotId b)"
proof (cases "map_of metaFields key")
  case None
  then have "key \<noteq> MetadataSnapshotId" by (auto simp: metaFields_def split: if_splits)
  with None show ?thesis
    by (simp add: pushSpecialAttribute_def split: val.splits)
next
  case (Some target)
  have "target = SnapshotIdField \<longleftrightarrow> key = MetadataSnapshotId"
    using Some
    by (auto simp: metaFields_def MetadataType_def MetadataSnapshotId_def
        MetadataSnapshotField_def split: if_splits)
  with Some show ?thesis
    by (cases target; cases v) (simp_all add: pushSpecialAttribute_def)
qed

lemma Push_keeps_SnapshotId:
  "SnapshotId (snd (snd (Push key v (h, b))))
     = (case v of GoString t \<Rightarrow> if key = MetadataSnapshotId then t else SnapshotId b
        | _ \<Rightarrow> SnapshotId b)"
proof (cases "HasPrefix key ''_''")
  case True
  then have "snd (snd (Push key v (h, b))) = snd (pushSpecialAttribute key v b)"
    by (simp add: Push_def split: prod.splits)
  then show ?thesis by (simp add: pushSpecialAttribute_SnapshotId)
next
  case False
  then have ne: "key \<noteq> MetadataSnapshotId"
    using HasPrefix_metadata [of key] by auto
  from False have "SnapshotId (snd (snd (Push key v (h, b)))) = SnapshotId b"
    by (simp add: Push_def split: prod.splits)
  with ne show ?thesis by (simp split: val.splits)
qed

lemma pushSpecialAttribute_SnapshotField:
  "SnapshotField (snd (pushSpecialAttribute key v b))
     = (case v of GoString t \<Rightarrow> if key = MetadataSnapshotField then t else SnapshotField b
        | _ \<Rightarrow> SnapshotField b)"
proof (cases "map_of metaFields key")
  case None
  then have "key \<noteq> MetadataSnapshotField" by (auto simp: metaFields_def split: if_splits)
  with None show ?thesis
    by (simp add: pushSpecialAttribute_def split: val.splits)
next
  case (Some target)
  have "target = SnapshotFieldField \<longleftrightarrow> key = MetadataSnapshotField"
    using Some
    by (auto simp: metaFields_def MetadataType_def MetadataSnapshotId_def
        MetadataSnapshotField_def split: if_splits)
  with Some show ?thesis
    by (cases target; cases v) (simp_all add: pushSpecialAttribute_def)
qed

lemma Push_keeps_SnapshotField:
  "SnapshotField (snd (snd (Push key v (h, b))))
     = (case v of GoString t \<Rightarrow> if key = MetadataSnapshotField then t else SnapshotField b
        | _ \<Rightarrow> SnapshotField b)"
proof (cases "HasPrefix key ''_''")
  case True
  then have "snd (snd (Push key v (h, b))) = snd (pushSpecialAttribute key v b)"
    by (simp add: Push_def split: prod.splits)
  then show ?thesis by (simp add: pushSpecialAttribute_SnapshotField)
next
  case False
  then have ne: "key \<noteq> MetadataSnapshotField"
    using HasPrefix_metadata [of key] by auto
  from False have "SnapshotField (snd (snd (Push key v (h, b)))) = SnapshotField b"
    by (simp add: Push_def split: prod.splits)
  with ne show ?thesis by (simp split: val.splits)
qed

text \<open>
  Claim C7, as amended. A Blob is constructed with both \<open>SnapshotId\<close> and
  \<open>SnapshotField\<close> empty. After any sequence of pushes, \<open>SnapshotId\<close> is the last string
  pushed under \<^verbatim>\<open>_snapshot_id\<close> (its first value when none was) and \<open>SnapshotField\<close> is
  the last string pushed under \<^verbatim>\<open>_snapshot_field\<close> (its first value when none was):
  each follows its own key only.
\<close>

theorem pushes_snapshot_fields:
  "SnapshotId (snd (pushes ops (h, b))) = last_pushed MetadataSnapshotId ops (SnapshotId b)
   \<and> SnapshotField (snd (pushes ops (h, b)))
       = last_pushed MetadataSnapshotField ops (SnapshotField b)
   \<and> SnapshotId (NewBlobFromJson now event ident d) = []
   \<and> SnapshotField (NewBlobFromJson now event ident d) = []"
proof -
  have "SnapshotId (snd (pushes ops s)) = last_pushed MetadataSnapshotId ops (SnapshotId (snd s))
    \<and> SnapshotField (snd (pushes ops s))
        = last_pushed MetadataSnapshotField ops (SnapshotField (snd s))" for s
  proof (induction ops arbitrary: s)
    case Nil
    then show ?case by simp
  next
    case (Cons op ops)
    obtain key v where op: "op = (key, v)" by (cases op)
    obtain h0 b0 where s: "s = (h0, b0)" by (cases s)
    show ?case
      using Cons.IH [of "snd (Push key v s)"]
      by (simp add: op s Push_keeps_SnapshotId Push_keeps_SnapshotField)
  qed
  from this [of "(h, b)"] show ?thesis
    by (simp add: NewBlobFromJson_def)
qed

theorem pushes_snapshot_fields_witness:
  "SnapshotId (snd (pushes [(''_snapshot_id'', GoString ''id''), (''_snapshot_id'', GoInt 3),
                             (''_snapshot_field'', GoString ''repository'')]
                      ([[]], NewBlobFromJson 0 ''push_event'' ''1'' (MapRef 0)))) = ''id''
   \<and> SnapshotField (snd (pushes [(''_snapshot_id'', GoString ''id''), (''_snapshot_id'', GoInt 3),
                             (''_snapshot_field'', GoString ''repository'')]
                      ([[]], NewBlobFromJson 0 ''push_event'' ''1'' (MapRef 0)))) = ''repository''"
  using pushes_snapshot_fields [of "[(''_snapshot_id'', GoString ''id''), (''_snapshot_id'', GoInt 3),
                             (''_snapshot_field'', GoString ''repository'')]" "[[]]"
      "NewBlobFromJson 0 ''push_event'' ''1'' (MapRef 0)"]
  by (simp add: NewBlobFromJson_def MetadataSnapshotId_def MetadataSnapshotField_def)

text \<open>
  Claim C7 fails as stated: one push of \<^verbatim>\<open>_snapshot_id\<close> on a new Blob leaves
  \<open>SnapshotId\<close> non-empty and \<open>SnapshotField\<close> empty.
\<close>

theorem pushes_snapshot_fields_counterexample:
  "SnapshotId (snd (pushes [(MetadataSnapshotId, GoString ''id'')]
                      (NewBlob 0 [] ''push_event'' ''1''))) = ''id''
   \<and> SnapshotField (snd (pushes [(MetadataSnapshotId, GoString ''id'')]
                      (NewBlob 0 [] ''push_event'' ''1''))) = []"
  by (simp add: NewBlob_def New_def make_map_def NewBlobFromJson_def Push_def
      pushSpecialAttribute_def metaFields_def HasPrefix_def
      MetadataType_def MetadataSnapshotId_def MetadataSnapshotField_def)

section \<open>Reading a path\<close>

lemma Get_CheckGet_Some: "CheckGet h d p = Some v \<Longrightarrow> Get h d p = v"
  by (auto simp: CheckGet_def Get_def split: val.splits)

lemma Get_CheckGet_None: "CheckGet h d p = None \<Longrightarrow> Get h d p = GoNil"
  by (auto simp: CheckGet_def Get_def split: val.splits)

lemma GetPath_Cons: "GetPath h d (p # ps) = GetPath h (Get h d p) ps"
  by (simp add: GetPath_def)

lemma GetPath_GoNil: "GetPath h GoNil ps = GoNil"
  by (induction ps) (auto simp: GetPath_def Get_def)

lemma lookup_path_GetPath: "lookup_path h d ps = Some v \<Longrightarrow> GetPath h d ps = v"
proof (induction ps arbitrary: d)
  case Nil
  then show ?case by (simp add: GetPath_def)
next
  case (Cons p ps)
  then show ?case
    by (auto simp: GetPath_Cons Get_CheckGet_Some split: option.splits)
qed

lemma GetPath_absent: "lookup_path h d ps = None \<Longrightarrow> GetPath h d ps = GoNil"
proof (induction ps arbitrary: d)
  case Nil
  then show ?case by simp
next
  case (Cons p ps)
  then show ?case
    by (auto simp: GetPath_Cons Get_CheckGet_Some Get_CheckGet_None GetPath_GoNil
        split: option.splits)
qed

lemma lookup_path_append:
  "lookup_path h d (ps @ qs) =
     (case lookup_path h d ps of None \<Rightarrow> None | Some x \<Rightarrow> lookup_path h x qs)"
  by (induction ps arbitrary: d) (auto split: option.splits)

lemma lookup_path_prefix_object:
  assumes "lookup_path h d (ps @ qs) = Some v" and "qs \<noteq> []"
  shows "\<exists>a. lookup_path h d ps = Some (MapRef a)"
proof -
  from assms(1) obtain x where x: "lookup_path h d ps = Some x" "lookup_path h x qs = Some v"
    by (auto simp: lookup_path_append split: option.splits)
  from assms(2) obtain q qs' where "qs = q # qs'" by (cases qs) auto
  with x(2) have "CheckGet h x q \<noteq> None" by (auto split: option.splits)
  then obtain a where "x = MapRef a" by (cases x) (auto simp: CheckGet_def)
  with x(1) show ?thesis by blast
qed

lemma Split_not_Nil: "Split s sep \<noteq> []"
  by (induction s) (auto split: list.splits)

lemma Get_MapRef:
  assumes "Get h d key = MapRef a1"
  shows "\<exists>a0. d = MapRef a0 \<and> map_of (h ! a0) key = Some (MapRef a1)"
  using assms by (cases d) (auto simp: Get_def split: option.splits)

section \<open>Snapshots\<close>

text \<open>
  Claim C6. \<open>Snapshot\<close> returns \<^verbatim>\<open>nil\<close> when \<open>SnapshotId\<close> is empty, when
  \<open>SnapshotField\<close> is empty, and when both are.
\<close>

theorem Snapshot_nil:
  assumes "SnapshotId b = [] \<or> SnapshotField b = []"
  shows "Snapshot fm h b = None"
  using assms by (auto simp: Snapshot_def)

theorem Snapshot_nil_witness:
  "(SnapshotId (ex_blob\<lparr>SnapshotId := []\<rparr>) = [] \<or> SnapshotField (ex_blob\<lparr>SnapshotId := []\<rparr>) = [])
   \<and> Snapshot ex_fm (ex_store (GoInt 42)) (ex_blob\<lparr>SnapshotId := []\<rparr>) = None
   \<and> Snapshot ex_fm (ex_store (GoInt 42)) (ex_blob\<lparr>SnapshotField := []\<rparr>) = None
   \<and> Snapshot ex_fm (ex_store (GoInt 42))
        (ex_blob\<lparr>SnapshotId := [], SnapshotField := []\<rparr>) = None"
  using Snapshot_nil [of "ex_blob\<lparr>SnapshotId := []\<rparr>" ex_fm "ex_store (GoInt 42)"]
    Snapshot_nil [of "ex_blob\<lparr>SnapshotField := []\<rparr>" ex_fm "ex_store (GoInt 42)"]
    Snapshot_nil [of "ex_blob\<lparr>SnapshotId := [], SnapshotField := []\<rparr>" ex_fm
      "ex_store (GoInt 42)"]
  by simp

text \<open>
  Claim C1. With both \<open>SnapshotId\<close> and \<open>SnapshotField\<close> non-empty, \<open>Snapshot\<close> returns
  a Blob whose \<open>Data\<close> is what \<open>Get\<close> finds under \<open>SnapshotField\<close> in the source's data
  (the value of that key when it is present), whose id is \<^verbatim>\<open>%v\<close> of what \<open>GetPath\<close> finds
  in that value along \<open>SnapshotId\<close> split at the dots (the value at that path when every
  segment is present), and whose \<open>Type\<close> and \<open>Timestamp\<close> are the source's. For the
  push event of the specification, with the number held as a Go integer or as a
  \<^verbatim>\<open>json.Number\<close>, the result is the object \<^verbatim>\<open>{"id":42}\<close> with id \<^verbatim>\<open>42\<close>, type
  \<^verbatim>\<open>push_event\<close> and the source's timestamp.
\<close>

theorem Snapshot_derives:
  "(SnapshotId b \<noteq> [] \<and> SnapshotField b \<noteq> [] \<longrightarrow>
      (\<exists>s. Snapshot fm h b = Some s
         \<and> Data s = Get h (Data b) (SnapshotField b)
         \<and> (\<forall>sub. CheckGet h (Data b) (SnapshotField b) = Some sub \<longrightarrow> Data s = sub)
         \<and> Id_blob s = Sprintf_v (fm h) (GetPath h (Data s) (Split (SnapshotId b) CHR ''.''))
         \<and> (\<forall>x. lookup_path h (Data s) (Split (SnapshotId b) CHR ''.'') = Some x \<longrightarrow>
               Id_blob s = Sprintf_v (fm h) x)
         \<and> Type s = Type b \<and> Timestamp s = Timestamp b))
   \<and> (\<forall>n \<in> {GoInt 42, JsonNumber ''42''}.
        Snapshot fm (ex_store n) ex_blob
          = Some \<lparr>Data = MapRef 1, Id_blob = ''42'', SnapshotId = [], SnapshotField = [],
                  Timestamp = Timestamp ex_blob, Type = ''push_event''\<rparr>)
   \<and> tree_of 3 (ex_store (GoInt 42)) (Data ex_blob)
       = Some (JObject [(''repository'', JObject [(''id'', JInt 42)]),
                        (''ref'', JString ''refs/heads/main'')])
   \<and> tree_of 2 (ex_store (GoInt 42)) (MapRef 1) = Some (JObject [(''id'', JInt 42)])
   \<and> tree_of 2 (ex_store (JsonNumber ''42'')) (MapRef 1) = Some (JObject [(''id'', JNumber ''42'')])"
proof -
  have general: "SnapshotId b \<noteq> [] \<and> SnapshotField b \<noteq> [] \<longrightarrow>
      (\<exists>s. Snapshot fm h b = Some s
         \<and> Data s = Get h (Data b) (SnapshotField b)
         \<and> (\<forall>sub. CheckGet h (Data b) (SnapshotField b) = Some sub \<longrightarrow> Data s = sub)
         \<and> Id_blob s = Sprintf_v (fm h) (GetPath h (Data s) (Split (SnapshotId b) CHR ''.''))
         \<and> (\<forall>x. lookup_path h (Data s) (Split (SnapshotId b) CHR ''.'') = Some x \<longrightarrow>
               Id_blob s = Sprintf_v (fm h) x)
         \<and> Type s = Type b \<and> Timestamp s = Timestamp b)"
    by (simp add: Snapshot_def Let_def Get_CheckGet_Some lookup_path_GetPath)
  have digits42: "show_int 42 = ''42''"
    by (simp add: show_int_def digits.simps)
  have scenario: "\<forall>n \<in> {GoInt 42, JsonNumber ''42''}.
        Snapshot fm (ex_store n) ex_blob
          = Some \<lparr>Data = MapRef 1, Id_blob = ''42'', SnapshotId = [], SnapshotField = [],
                  Timestamp = Timestamp ex_blob, Type = ''push_event''\<rparr>"
    by (simp add: Snapshot_def ex_store_def ex_blob_def Get_def GetPath_def digits42)
  have trees: "tree_of 3 (ex_store (GoInt 42)) (Data ex_blob)
       = Some (JObject [(''repository'', JObject [(''id'', JInt 42)]),
                        (''ref'', JString ''refs/heads/main'')])"
    "tree_of 2 (ex_store (GoInt 42)) (MapRef 1) = Some (JObject [(''id'', JInt 42)])"
    "tree_of 2 (ex_store (JsonNumber ''42'')) (MapRef 1) = Some (JObject [(''id'', JNumber ''42'')])"
    by (simp_all add: ex_store_def ex_blob_def numeral_2_eq_2 numeral_3_eq_3)
  show ?thesis
    using general scenario trees by blast
qed

theorem Snapshot_derives_witness:
  "SnapshotId ex_blob \<noteq> [] \<and> SnapshotField ex_blob \<noteq> []
   \<and> (\<exists>s. Snapshot ex_fm (ex_store (GoInt 42)) ex_blob = Some s
        \<and> Data s = MapRef 1 \<and> Id_blob s = ''42''
        \<and> Type s = ''push_event'' \<and> Timestamp s = Timestamp ex_blob)"
proof -
  have ne: "SnapshotId ex_blob \<noteq> [] \<and> SnapshotField ex_blob \<noteq> []"
    by (simp add: ex_blob_def)
  have sub: "CheckGet (ex_store (GoInt 42)) (Data ex_blob) (SnapshotField ex_blob) = Some (MapRef 1)"
    by (simp add: CheckGet_def ex_store_def ex_blob_def)
  have idv: "lookup_path (ex_store (GoInt 42)) (MapRef 1) (Split (SnapshotId ex_blob) CHR ''.'')
      = Some (GoInt 42)"
    by (simp add: CheckGet_def ex_store_def ex_blob_def)
  have s42: "Sprintf_v (ex_fm (ex_store (GoInt 42))) (GoInt 42) = ''42''"
    by (simp add: show_int_def digits.simps)
  have ty: "Type ex_blob = ''push_event''"
    by (simp add: ex_blob_def)
  from Snapshot_derives [of ex_blob ex_fm "ex_store (GoInt 42)"] ne
  obtain s where s: "Snapshot ex_fm (ex_store (GoInt 42)) ex_blob = Some s"
    "\<forall>sub. CheckGet (ex_store (GoInt 42)) (Data ex_blob) (SnapshotField ex_blob) = Some sub \<longrightarrow> Data s = sub"
    "\<forall>x. lookup_path (ex_store (GoInt 42)) (Data s) (Split (SnapshotId ex_blob) CHR ''.'') = Some x \<longrightarrow>
               Id_blob s = Sprintf_v (ex_fm (ex_store (GoInt 42))) x"
    "Type s = Type ex_blob" "Timestamp s = Timestamp ex_blob"
    by blast
  from s(2) sub have d: "Data s = MapRef 1" by blast
  from s(3) idv d have "Id_blob s = Sprintf_v (ex_fm (ex_store (GoInt 42))) (GoInt 42)" by simp
  with s42 have i: "Id_blob s = ''42''" by simp
  show ?thesis
    using ne s(1) d i s(4) s(5) ty by simp
qed

text \<open>
  Claim C10. With both fields non-empty, when some segment of the path \<open>SnapshotField\<close>
  followed by the segments of \<open>SnapshotId\<close> is missing from the source's data,
  \<open>Snapshot\<close> still returns a Blob, and its id is the five characters \<^verbatim>\<open><nil>\<close>.
\<close>

theorem Snapshot_missing_id:
  assumes "SnapshotId b \<noteq> []" and "SnapshotField b \<noteq> []"
    and "lookup_path h (Data b) (SnapshotField b # Split (SnapshotId b) CHR ''.'') = None"
  shows "\<exists>s. Snapshot fm h b = Some s \<and> Id_blob s = ''<nil>'' \<and> length (Id_blob s) = 5"
proof -
  have "GetPath h (Data b) (SnapshotField b # Split (SnapshotId b) CHR ''.'') = GoNil"
    using assms(3) by (rule GetPath_absent)
  then have "GetPath h (Get h (Data b) (SnapshotField b)) (Split (SnapshotId b) CHR ''.'') = GoNil"
    by (simp add: GetPath_Cons)
  then show ?thesis
    using assms(1,2) by (simp add: Snapshot_def)
qed

theorem Snapshot_missing_id_witness:
  "SnapshotId (ex_blob\<lparr>SnapshotId := ''owner.login''\<rparr>) \<noteq> []
   \<and> SnapshotField (ex_blob\<lparr>SnapshotId := ''owner.login''\<rparr>) \<noteq> []
   \<and> lookup_path (ex_store (GoInt 42)) (Data (ex_blob\<lparr>SnapshotId := ''owner.login''\<rparr>))
        (SnapshotField (ex_blob\<lparr>SnapshotId := ''owner.login''\<rparr>)
           # Split (SnapshotId (ex_blob\<lparr>SnapshotId := ''owner.login''\<rparr>)) CHR ''.'') = None
   \<and> (\<exists>s. Snapshot ex_fm (ex_store (GoInt 42)) (ex_blob\<lparr>SnapshotId := ''owner.login''\<rparr>) = Some s
        \<and> Id_blob s = ''<nil>'' \<and> length (Id_blob s) = 5)
   \<and> lookup_path (ex_store (GoInt 42)) (Data (ex_blob\<lparr>SnapshotField := ''sender''\<rparr>))
        (SnapshotField (ex_blob\<lparr>SnapshotField := ''sender''\<rparr>)
           # Split (SnapshotId (ex_blob\<lparr>SnapshotField := ''sender''\<rparr>)) CHR ''.'') = None
   \<and> (\<exists>s. Snapshot ex_fm (ex_store (GoInt 42)) (ex_blob\<lparr>SnapshotField := ''sender''\<rparr>) = Some s
        \<and> Id_blob s = ''<nil>'' \<and> length (Id_blob s) = 5)"
proof -
  let ?b = "ex_blob\<lparr>SnapshotId := ''owner.login''\<rparr>"
  let ?c = "ex_blob\<lparr>SnapshotField := ''sender''\<rparr>"
  have b1: "SnapshotId ?b \<noteq> []" and b2: "SnapshotField ?b \<noteq> []"
    by (simp_all add: ex_blob_def)
  have b3: "lookup_path (ex_store (GoInt 42)) (Data ?b)
        (SnapshotField ?b # Split (SnapshotId ?b) CHR ''.'') = None"
    by (simp add: ex_blob_def ex_store_def CheckGet_def)
  have c1: "SnapshotId ?c \<noteq> []" and c2: "SnapshotField ?c \<noteq> []"
    by (simp_all add: ex_blob_def)
  have c3: "lookup_path (ex_store (GoInt 42)) (Data ?c)
        (SnapshotField ?c # Split (SnapshotId ?c) CHR ''.'') = None"
    by (simp add: ex_blob_def ex_store_def CheckGet_def)
  show ?thesis
    using b1 b2 b3 c3 Snapshot_missing_id [OF b1 b2 b3, of "ex_fm"]
      Snapshot_missing_id [OF c1 c2 c3, of "ex_fm"]
    by blast
qed

section \<open>Writing a path\<close>

text \<open>
  \<open>walk\<close> from an object that is empty allocates every object it visits: it leaves all
  other objects as they were and ends in a new object, or where it started.
\<close>

lemma walk_fresh:
  assumes "c < length h" and "h ! c = []" and "walk h c bs = (h2, c2)"
  shows "length h \<le> length h2 \<and> c2 < length h2
    \<and> (\<forall>x<length h. x \<noteq> c \<longrightarrow> h2 ! x = h ! x)
    \<and> (c2 = c \<or> length h \<le> c2)
    \<and> (\<forall>m. lookup_path (h2[c2 := m]) (MapRef c) bs = Some (MapRef c2))"
  using assms
proof (induction bs arbitrary: h c)
  case Nil
  then show ?case by auto
next
  case (Cons b bs)
  let ?n = "length h"
  let ?h' = "(h @ [[]])[c := [(b, MapRef ?n)]]"
  have step: "walk ?h' ?n bs = (h2, c2)"
    using Cons.prems by (simp add: make_map_def nth_append)
  have n_lt: "?n < length ?h'" by simp
  have n_empty: "?h' ! ?n = []"
    using Cons.prems(1) by (simp add: nth_append)
  note IH = Cons.IH [OF n_lt n_empty step]
  have len: "length h \<le> length h2" using IH by simp
  have c2: "c2 < length h2" using IH by simp
  have c2_ge: "length h \<le> c2" using IH by auto
  have frame: "\<forall>x<length h. x \<noteq> c \<longrightarrow> h2 ! x = h ! x"
  proof (intro allI impI)
    fix x assume x: "x < length h" "x \<noteq> c"
    then have "h2 ! x = ?h' ! x" using IH by simp
    also have "\<dots> = h ! x" using x by (simp add: nth_append)
    finally show "h2 ! x = h ! x" .
  qed
  have at_c: "h2 ! c = [(b, MapRef ?n)]"
  proof -
    have "h2 ! c = ?h' ! c" using IH Cons.prems(1) by simp
    then show ?thesis using Cons.prems(1) by simp
  qed
  have path: "\<forall>m. lookup_path (h2[c2 := m]) (MapRef c) (b # bs) = Some (MapRef c2)"
  proof
    fix m
    have "c2 \<noteq> c" using c2_ge Cons.prems(1) by simp
    then have "(h2[c2 := m]) ! c = [(b, MapRef ?n)]" using at_c by simp
    then have "CheckGet (h2[c2 := m]) (MapRef c) b = Some (MapRef ?n)"
      by (simp add: CheckGet_def)
    moreover have "lookup_path (h2[c2 := m]) (MapRef ?n) bs = Some (MapRef c2)"
      using IH by blast
    ultimately show "lookup_path (h2[c2 := m]) (MapRef c) (b # bs) = Some (MapRef c2)"
      by simp
  qed
  show ?case using len c2 c2_ge frame path by blast
qed

lemma walk_alloc:
  assumes "c < length h" and "\<forall>a. map_of (h ! c) b \<noteq> Some (MapRef a)"
    and "walk h c (b # bs) = (h2, c2)"
  shows "walk ((h @ [[]])[c := AList.update b (MapRef (length h)) (h ! c)]) (length h) bs = (h2, c2)"
proof (cases "map_of (h ! c) b")
  case None
  then show ?thesis using assms by (simp add: make_map_def nth_append)
next
  case (Some v)
  then show ?thesis using assms by (cases v) (simp_all add: make_map_def nth_append)
qed

lemma walk_ranked:
  assumes "ranked rank h" and "c < length h" and "walk h c bs = (h2, c2)"
  shows "length h \<le> length h2 \<and> c2 < length h2
    \<and> (\<forall>x<length h. rank c < rank x \<longrightarrow> h2 ! x = h ! x)
    \<and> (c2 < length h \<longrightarrow> rank c2 \<le> rank c)
    \<and> (\<forall>m. lookup_path (h2[c2 := m]) (MapRef c) bs = Some (MapRef c2))"
  using assms
proof (induction bs arbitrary: c)
  case Nil
  then show ?case by auto
next
  case (Cons b bs)
  show ?case
  proof (cases "\<exists>a. map_of (h ! c) b = Some (MapRef a)")
    case True
    then obtain a where a: "map_of (h ! c) b = Some (MapRef a)" by blast
    then have "(b, MapRef a) \<in> set (h ! c)" by (rule map_of_SomeD)
    with Cons.prems(1,2) have a_lt: "a < length h" and a_rank: "rank a < rank c"
      by (auto simp: ranked_def)
    have step: "walk h a bs = (h2, c2)" using Cons.prems(3) a by simp
    note IH = Cons.IH [OF Cons.prems(1) a_lt step]
    have c_same: "h2 ! c = h ! c" using IH Cons.prems(2) a_rank by simp
    have c2_ne: "c2 \<noteq> c"
    proof
      assume "c2 = c"
      with IH Cons.prems(2) have "rank c \<le> rank a" by simp
      with a_rank show False by simp
    qed
    have path: "\<forall>m. lookup_path (h2[c2 := m]) (MapRef c) (b # bs) = Some (MapRef c2)"
    proof
      fix m
      have "(h2[c2 := m]) ! c = h ! c" using c2_ne c_same by simp
      then have "CheckGet (h2[c2 := m]) (MapRef c) b = Some (MapRef a)"
        using a by (simp add: CheckGet_def)
      moreover have "lookup_path (h2[c2 := m]) (MapRef a) bs = Some (MapRef c2)"
        using IH by blast
      ultimately show "lookup_path (h2[c2 := m]) (MapRef c) (b # bs) = Some (MapRef c2)"
        by simp
    qed
    have frame: "\<forall>x<length h. rank c < rank x \<longrightarrow> h2 ! x = h ! x"
      using IH a_rank by auto
    have below: "c2 < length h \<longrightarrow> rank c2 \<le> rank c"
      using IH a_rank by auto
    show ?thesis using IH frame below path by blast
  next
    case False
    let ?n = "length h"
    let ?h' = "(h @ [[]])[c := AList.update b (MapRef ?n) (h ! c)]"
    from False have no: "\<forall>a. map_of (h ! c) b \<noteq> Some (MapRef a)" by blast
    have step: "walk ?h' ?n bs = (h2, c2)"
      using walk_alloc [OF Cons.prems(2) no Cons.prems(3)] .
    have n_lt: "?n < length ?h'" by simp
    have n_empty: "?h' ! ?n = []" using Cons.prems(2) by (simp add: nth_append)
    note F = walk_fresh [OF n_lt n_empty step]
    have c2_ge: "length h \<le> c2" using F by auto
    have at_c: "h2 ! c = AList.update b (MapRef ?n) (h ! c)"
    proof -
      have "h2 ! c = ?h' ! c" using F Cons.prems(2) by simp
      then show ?thesis using Cons.prems(2) by simp
    qed
    have path: "\<forall>m. lookup_path (h2[c2 := m]) (MapRef c) (b # bs) = Some (MapRef c2)"
    proof
      fix m
      have "c2 \<noteq> c" using c2_ge Cons.prems(2) by simp
      then have "(h2[c2 := m]) ! c = AList.update b (MapRef ?n) (h ! c)" using at_c by simp
      then have "CheckGet (h2[c2 := m]) (MapRef c) b = Some (MapRef ?n)"
        by (simp add: CheckGet_def update_conv')
      moreover have "lookup_path (h2[c2 := m]) (MapRef ?n) bs = Some (MapRef c2)"
        using F by blast
      ultimately show "lookup_path (h2[c2 := m]) (MapRef c) (b # bs) = Some (MapRef c2)"
        by simp
    qed
    have frame: "\<forall>x<length h. rank c < rank x \<longrightarrow> h2 ! x = h ! x"
    proof (intro allI impI)
      fix x assume x: "x < length h" "rank c < rank x"
      then have "x \<noteq> c" by auto
      have "h2 ! x = ?h' ! x" using F x by simp
      also have "\<dots> = h ! x" using x \<open>x \<noteq> c\<close> by (simp add: nth_append)
      finally show "h2 ! x = h ! x" .
    qed
    have len: "length h \<le> length h2" using F by simp
    have c2: "c2 < length h2" using F by simp
    show ?thesis using len c2 c2_ge frame path by auto
  qed
qed

lemma lookup_path_last:
  assumes "branch \<noteq> []" and "c2 < length h2"
    and "lookup_path (h2[c2 := AList.update (last branch) v (h2 ! c2)]) d (butlast branch)
           = Some (MapRef c2)"
  shows "lookup_path (h2[c2 := AList.update (last branch) v (h2 ! c2)]) d branch = Some v"
proof -
  let ?h3 = "h2[c2 := AList.update (last branch) v (h2 ! c2)]"
  have "CheckGet ?h3 (MapRef c2) (last branch) = Some v"
    using assms(2) by (simp add: CheckGet_def update_conv')
  then have "lookup_path ?h3 d (butlast branch @ [last branch]) = Some v"
    using assms(3) by (simp add: lookup_path_append)
  then show ?thesis using assms(1) by simp
qed

lemma SetPath_fresh:
  assumes "\<forall>a. d \<noteq> MapRef a" and "branch \<noteq> []" and "SetPath h d branch v = (h3, d1)"
  shows "d1 = MapRef (length h) \<and> length h < length h3
    \<and> (\<forall>x<length h. h3 ! x = h ! x)
    \<and> lookup_path h3 d1 branch = Some v"
proof -
  let ?n = "length h"
  obtain h2 c2 where w: "walk (h @ [[]]) ?n (butlast branch) = (h2, c2)"
    by (cases "walk (h @ [[]]) ?n (butlast branch)") blast
  have res: "h3 = h2[c2 := AList.update (last branch) v (h2 ! c2)]" "d1 = MapRef ?n"
    using assms w by (cases d; simp add: SetPath_def make_map_def)+
  have n_lt: "?n < length (h @ [[]])" by simp
  have n_empty: "(h @ [[]]) ! ?n = []" by simp
  note F = walk_fresh [OF n_lt n_empty w]
  have c2: "c2 < length h2" and c2_ge: "?n \<le> c2" using F by auto
  have frame: "\<forall>x<length h. h3 ! x = h ! x"
  proof (intro allI impI)
    fix x assume x: "x < length h"
    then have "h3 ! x = h2 ! x" using res(1) c2_ge by simp
    also have "\<dots> = (h @ [[]]) ! x" using F x by simp
    also have "\<dots> = h ! x" using x by (simp add: nth_append)
    finally show "h3 ! x = h ! x" .
  qed
  have "lookup_path h3 (MapRef ?n) (butlast branch) = Some (MapRef c2)"
    using F res(1) by blast
  then have "lookup_path h3 d1 branch = Some v"
    unfolding res using assms(2) c2 by (rule_tac lookup_path_last)
  moreover have "length h < length h3" using F res(1) by simp
  ultimately show ?thesis using res(2) frame by blast
qed

lemma SetPath_ranked:
  assumes "ranked rank h" and "a < length h" and "branch \<noteq> []"
    and "SetPath h (MapRef a) branch v = (h3, d1)"
  shows "d1 = MapRef a \<and> length h \<le> length h3
    \<and> (\<forall>x<length h. rank a < rank x \<longrightarrow> h3 ! x = h ! x)
    \<and> lookup_path h3 d1 branch = Some v"
proof -
  obtain h2 c2 where w: "walk h a (butlast branch) = (h2, c2)"
    by (cases "walk h a (butlast branch)") blast
  have res: "h3 = h2[c2 := AList.update (last branch) v (h2 ! c2)]" "d1 = MapRef a"
    using assms(3,4) w by (simp_all add: SetPath_def)
  note W = walk_ranked [OF assms(1,2) w]
  have c2: "c2 < length h2" using W by simp
  have frame: "\<forall>x<length h. rank a < rank x \<longrightarrow> h3 ! x = h ! x"
  proof (intro allI impI)
    fix x assume x: "x < length h" "rank a < rank x"
    have "c2 \<noteq> x"
    proof
      assume "c2 = x"
      with W x(1) have "rank x \<le> rank a" by simp
      with x(2) show False by simp
    qed
    then have "h3 ! x = h2 ! x" using res(1) by simp
    also have "\<dots> = h ! x" using W x by simp
    finally show "h3 ! x = h ! x" .
  qed
  have "lookup_path h3 (MapRef a) (butlast branch) = Some (MapRef c2)"
    using W res(1) by blast
  then have "lookup_path h3 d1 branch = Some v"
    unfolding res using assms(3) c2 by (rule_tac lookup_path_last)
  moreover have "length h \<le> length h3" using W res(1) by simp
  ultimately show ?thesis using res(2) frame by blast
qed

lemma SetPath_sets:
  assumes "ranked rank h" and "allocated h d" and "branch \<noteq> []"
    and "SetPath h d branch v = (h3, d1)"
  shows "lookup_path h3 d1 branch = Some v"
proof (cases "\<exists>a. d = MapRef a")
  case True
  then obtain a where d: "d = MapRef a" by blast
  with assms(2) have a: "a < length h" by (simp add: allocated_def)
  from assms(4) d have "SetPath h (MapRef a) branch v = (h3, d1)" by simp
  from SetPath_ranked [OF assms(1) a assms(3) this] show ?thesis by blast
next
  case False
  then show ?thesis
    using SetPath_fresh [of d branch h v h3 d1] assms by blast
qed

lemma HasAttribute_top_level:
  "HasAttribute h b attr \<longleftrightarrow> (\<exists>a. Data b = MapRef a \<and> attr \<in> fst ` set (h ! a))"
proof (cases "Data b")
  case (MapRef a)
  have "(map_of (h ! a) attr \<noteq> None) = (attr \<in> fst ` set (h ! a))"
    by (simp add: map_of_eq_None_iff)
  then show ?thesis
    using MapRef by (auto simp: HasAttribute_def CheckGet_def split: option.splits)
qed (simp_all add: HasAttribute_def CheckGet_def)

lemma ranked_ex_store: "ranked ex_rank (ex_store (GoInt 42))"
  unfolding ranked_def ex_store_def ex_rank_def
proof (intro allI impI)
  fix a k a'
  assume a: "a < length [[(''repository'', MapRef 1), (''ref'', GoString ''refs/heads/main'')], [(''id'', GoInt 42)]]"
    and m: "(k, MapRef a') \<in> set ([[(''repository'', MapRef 1), (''ref'', GoString ''refs/heads/main'')], [(''id'', GoInt 42)]] ! a)"
  from a have "a = 0 \<or> a = 1" by auto
  then show "a' < length [[(''repository'', MapRef 1), (''ref'', GoString ''refs/heads/main'')], [(''id'', GoInt 42)]] \<and> 1 - a' < 1 - a"
  proof
    assume "a = 0"
    with m have "a' = 1" by simp
    with \<open>a = 0\<close> show ?thesis by simp
  next
    assume "a = 1"
    with m show ?thesis by simp
  qed
qed

text \<open>
  Claim C4. On a store without cycles and dangling addresses, a push whose key does not
  start with \<^verbatim>\<open>_\<close> returns no error, whatever the value. Afterwards the path made of
  the key's segments between the dots leads to the value: every segment is present, every
  segment but the last holds an object, and \<open>GetPath\<close> returns the value. \<open>HasAttribute\<close>
  holds for the first segment, and it holds for a name exactly when the name is a key of
  the object that \<open>Data\<close> refers to.
\<close>

theorem Push_ordinary_key:
  assumes "\<not> HasPrefix key ''_''" and "ranked rank h" and "allocated h (Data b)"
  shows "\<exists>h' d'. Push key v (h, b) = (None, h', b\<lparr>Data := d'\<rparr>)
      \<and> lookup_path h' d' (Split key CHR ''.'') = Some v
      \<and> GetPath h' d' (Split key CHR ''.'') = v
      \<and> (\<forall>ps qs. Split key CHR ''.'' = ps @ qs \<and> qs \<noteq> [] \<longrightarrow>
            (\<exists>a. lookup_path h' d' ps = Some (MapRef a)))
      \<and> HasAttribute h' (b\<lparr>Data := d'\<rparr>) (hd (Split key CHR ''.''))
      \<and> (\<forall>attr. HasAttribute h' (b\<lparr>Data := d'\<rparr>) attr
            \<longleftrightarrow> (\<exists>a. d' = MapRef a \<and> attr \<in> fst ` set (h' ! a)))"
proof -
  let ?path = "Split key CHR ''.''"
  obtain h' d' where sp: "SetPath h (Data b) ?path v = (h', d')"
    by (cases "SetPath h (Data b) ?path v") blast
  have push: "Push key v (h, b) = (None, h', b\<lparr>Data := d'\<rparr>)"
    using assms(1) sp by (simp add: Push_def)
  have lp: "lookup_path h' d' ?path = Some v"
    using SetPath_sets [OF assms(2,3) Split_not_Nil sp] .
  then have gp: "GetPath h' d' ?path = v"
    by (rule lookup_path_GetPath)
  have inter: "\<forall>ps qs. ?path = ps @ qs \<and> qs \<noteq> [] \<longrightarrow> (\<exists>a. lookup_path h' d' ps = Some (MapRef a))"
    using lp lookup_path_prefix_object by metis
  obtain p ps where path: "?path = p # ps"
    using Split_not_Nil [of key "CHR ''.''"] by (cases ?path) auto
  with lp have "CheckGet h' d' p \<noteq> None" by (auto split: option.splits)
  then have has: "HasAttribute h' (b\<lparr>Data := d'\<rparr>) (hd ?path)"
    using path by (auto simp: HasAttribute_def)
  have top: "\<forall>attr. HasAttribute h' (b\<lparr>Data := d'\<rparr>) attr
            \<longleftrightarrow> (\<exists>a. d' = MapRef a \<and> attr \<in> fst ` set (h' ! a))"
    by (simp add: HasAttribute_top_level)
  show ?thesis
    using push lp gp inter has top by blast
qed

theorem Push_ordinary_key_witness:
  "\<not> HasPrefix ''repository.owner.login'' ''_''
   \<and> ranked ex_rank (ex_store (GoInt 42))
   \<and> allocated (ex_store (GoInt 42)) (Data ex_blob)
   \<and> Push ''repository.owner.login'' (GoString ''octocat'') (ex_store (GoInt 42), ex_blob)
       = (None,
          [[(''repository'', MapRef 1), (''ref'', GoString ''refs/heads/main'')],
           [(''id'', GoInt 42), (''owner'', MapRef 2)],
           [(''login'', GoString ''octocat'')]],
          ex_blob)
   \<and> (\<exists>h' d'. Push ''repository.owner.login'' (GoString ''octocat'') (ex_store (GoInt 42), ex_blob)
         = (None, h', ex_blob\<lparr>Data := d'\<rparr>)
      \<and> lookup_path h' d' (Split ''repository.owner.login'' CHR ''.'') = Some (GoString ''octocat'')
      \<and> GetPath h' d' (Split ''repository.owner.login'' CHR ''.'') = GoString ''octocat''
      \<and> (\<forall>ps qs. Split ''repository.owner.login'' CHR ''.'' = ps @ qs \<and> qs \<noteq> [] \<longrightarrow>
            (\<exists>a. lookup_path h' d' ps = Some (MapRef a)))
      \<and> HasAttribute h' (ex_blob\<lparr>Data := d'\<rparr>) (hd (Split ''repository.owner.login'' CHR ''.''))
      \<and> (\<forall>attr. HasAttribute h' (ex_blob\<lparr>Data := d'\<rparr>) attr
            \<longleftrightarrow> (\<exists>a. d' = MapRef a \<and> attr \<in> fst ` set (h' ! a))))"
proof -
  have p: "\<not> HasPrefix ''repository.owner.login'' ''_''"
    by (simp add: HasPrefix_def)
  have r: "ranked ex_rank (ex_store (GoInt 42))"
    by (rule ranked_ex_store)
  have a: "allocated (ex_store (GoInt 42)) (Data ex_blob)"
    by (simp add: allocated_def ex_store_def ex_blob_def)
  have run: "Push ''repository.owner.login'' (GoString ''octocat'') (ex_store (GoInt 42), ex_blob)
       = (None,
          [[(''repository'', MapRef 1), (''ref'', GoString ''refs/heads/main'')],
           [(''id'', GoInt 42), (''owner'', MapRef 2)],
           [(''login'', GoString ''octocat'')]],
          ex_blob)"
    by code_simp
  show ?thesis
    by (intro conjI) (rule p r a run Push_ordinary_key [OF p r a])+
qed

text \<open>
  The store must have no cycle: in a store whose one object holds itself under \<^verbatim>\<open>x\<close>,
  the push of \<^verbatim>\<open>x.x\<close> overwrites the field it has just walked through, and the path no
  longer leads to the value.
\<close>

lemma Push_on_cycle:
  "Push ''x.x'' (GoInt 5) ([[(''x'', MapRef 0)]], NewBlobFromJson 0 ''e'' ''1'' (MapRef 0))
     = (None, [[(''x'', GoInt 5)]], NewBlobFromJson 0 ''e'' ''1'' (MapRef 0))
   \<and> GetPath [[(''x'', GoInt 5)]] (MapRef 0) (Split ''x.x'' CHR ''.'') = GoNil"
  by code_simp

section \<open>A snapshot and its source\<close>

lemma tree_of_scalar: "is_scalar v \<Longrightarrow> tree_of n h' v = tree_of n h v"
  by (cases n; cases v) simp_all

text \<open>
  Claim C8, as amended. \<open>Snapshot\<close> does not copy. When the value under \<open>SnapshotField\<close>
  is an object, the snapshot's \<open>Data\<close> is that same object: after a push of an ordinary key
  on the snapshot, the source's data holds the pushed value under \<open>SnapshotField\<close>
  followed by the key's segments. When the value is missing or not an object, a push on
  the snapshot leaves every object that was in the store as it was, so the source's
  document is unchanged; and when it holds no map at all, the snapshot's document is the
  same in every store, so that no push on the source changes it.
\<close>

theorem Snapshot_shares:
  assumes "Snapshot fm h b = Some s" and "\<not> HasPrefix key ''_''"
    and "Push key v (h, s) = (e, h', s')"
  shows "((\<forall>a. Data s \<noteq> MapRef a) \<longrightarrow> (\<forall>x<length h. h' ! x = h ! x))
    \<and> (is_scalar (Data s) \<longrightarrow> (\<forall>n h''. tree_of n h'' (Data s) = tree_of n h (Data s)))
    \<and> (\<forall>a1. Data s = MapRef a1 \<and> ranked rank h \<and> allocated h (Data b) \<longrightarrow>
          Data s' = MapRef a1
          \<and> CheckGet h (Data b) (SnapshotField b) = Some (MapRef a1)
          \<and> lookup_path h' (Data b) (SnapshotField b # Split key CHR ''.'') = Some v)"
proof -
  let ?path = "Split key CHR ''.''"
  have data: "Data s = Get h (Data b) (SnapshotField b)"
    using assms(1) by (auto simp: Snapshot_def Let_def split: if_splits)
  have sp: "SetPath h (Data s) ?path v = (h', Data s')"
    using assms(2,3) by (auto simp: Push_def split: prod.splits)
  have indep: "(\<forall>a. Data s \<noteq> MapRef a) \<longrightarrow> (\<forall>x<length h. h' ! x = h ! x)"
    using SetPath_fresh [OF _ Split_not_Nil sp] by blast
  have scalar: "is_scalar (Data s) \<longrightarrow> (\<forall>n h''. tree_of n h'' (Data s) = tree_of n h (Data s))"
    using tree_of_scalar by blast
  have shared: "Data s' = MapRef a1
          \<and> CheckGet h (Data b) (SnapshotField b) = Some (MapRef a1)
          \<and> lookup_path h' (Data b) (SnapshotField b # ?path) = Some v"
    if s: "Data s = MapRef a1" and r: "ranked rank h" and al: "allocated h (Data b)" for a1
  proof -
    from data s obtain a0 where a0: "Data b = MapRef a0"
      and edge: "map_of (h ! a0) (SnapshotField b) = Some (MapRef a1)"
      using Get_MapRef [of h "Data b" "SnapshotField b" a1] by auto
    from al a0 have a0_lt: "a0 < length h" by (simp add: allocated_def)
    from edge have "(SnapshotField b, MapRef a1) \<in> set (h ! a0)" by (rule map_of_SomeD)
    with r a0_lt have a1_lt: "a1 < length h" and a1_rank: "rank a1 < rank a0"
      by (auto simp: ranked_def)
    from sp s have "SetPath h (MapRef a1) ?path v = (h', Data s')" by simp
    note S = SetPath_ranked [OF r a1_lt Split_not_Nil this]
    have "h' ! a0 = h ! a0" using S a0_lt a1_rank by simp
    with edge have "CheckGet h' (MapRef a0) (SnapshotField b) = Some (MapRef a1)"
      by (simp add: CheckGet_def)
    moreover have "lookup_path h' (MapRef a1) ?path = Some v" using S by metis
    ultimately have "lookup_path h' (Data b) (SnapshotField b # ?path) = Some v"
      using a0 by simp
    moreover have "CheckGet h (Data b) (SnapshotField b) = Some (MapRef a1)"
      using a0 edge by (simp add: CheckGet_def)
    ultimately show ?thesis using S by blast
  qed
  show ?thesis using indep scalar shared by blast
qed

theorem Snapshot_shares_witness:
  "Snapshot ex_fm (ex_store (GoInt 42)) ex_blob = Some ex_snapshot
   \<and> \<not> HasPrefix ''name'' ''_''
   \<and> Push ''name'' (GoString ''x'') (ex_store (GoInt 42), ex_snapshot)
       = (None,
          [[(''repository'', MapRef 1), (''ref'', GoString ''refs/heads/main'')],
           [(''id'', GoInt 42), (''name'', GoString ''x'')]],
          ex_snapshot)
   \<and> Data ex_snapshot = MapRef 1
   \<and> ranked ex_rank (ex_store (GoInt 42))
   \<and> allocated (ex_store (GoInt 42)) (Data ex_blob)
   \<and> lookup_path
        [[(''repository'', MapRef 1), (''ref'', GoString ''refs/heads/main'')],
         [(''id'', GoInt 42), (''name'', GoString ''x'')]]
        (Data ex_blob) (SnapshotField ex_blob # Split ''name'' CHR ''.'')
       = Some (GoString ''x'')
   \<and> Snapshot ex_fm (ex_store (GoInt 42)) (ex_blob\<lparr>SnapshotField := ''ref''\<rparr>)
       = Some ex_ref_snapshot
   \<and> Push ''name'' (GoString ''x'') (ex_store (GoInt 42), ex_ref_snapshot)
       = (None, ex_store (GoInt 42) @ [[(''name'', GoString ''x'')]],
          ex_ref_snapshot\<lparr>Data := MapRef 2\<rparr>)
   \<and> is_scalar (Data ex_ref_snapshot)
   \<and> (ex_store (GoInt 42) @ [[(''name'', GoString ''x'')]]) ! 0 = ex_store (GoInt 42) ! 0
   \<and> (ex_store (GoInt 42) @ [[(''name'', GoString ''x'')]]) ! 1 = ex_store (GoInt 42) ! 1
   \<and> tree_of 1 [] (Data ex_ref_snapshot) = tree_of 1 (ex_store (GoInt 42)) (Data ex_ref_snapshot)"
proof -
  let ?h = "ex_store (GoInt 42)"
  let ?h1 = "[[(''repository'', MapRef 1), (''ref'', GoString ''refs/heads/main'')],
              [(''id'', GoInt 42), (''name'', GoString ''x'')]]"
  let ?h2 = "?h @ [[(''name'', GoString ''x'')]]"
  have snap: "Snapshot ex_fm ?h ex_blob = Some ex_snapshot"
    by code_simp
  have pfx: "\<not> HasPrefix ''name'' ''_''"
    by (simp add: HasPrefix_def)
  have push: "Push ''name'' (GoString ''x'') (?h, ex_snapshot) = (None, ?h1, ex_snapshot)"
    by code_simp
  have obj: "Data ex_snapshot = MapRef 1"
    by (simp add: ex_snapshot_def)
  have r: "ranked ex_rank ?h"
    by (rule ranked_ex_store)
  have al: "allocated ?h (Data ex_blob)"
    by (simp add: allocated_def ex_store_def ex_blob_def)
  have seen: "lookup_path ?h1 (Data ex_blob) (SnapshotField ex_blob # Split ''name'' CHR ''.'')
      = Some (GoString ''x'')"
    using Snapshot_shares [OF snap pfx push, of ex_rank] obj r al by blast
  have snap2: "Snapshot ex_fm ?h (ex_blob\<lparr>SnapshotField := ''ref''\<rparr>) = Some ex_ref_snapshot"
    by code_simp
  have push2: "Push ''name'' (GoString ''x'') (?h, ex_ref_snapshot)
      = (None, ?h2, ex_ref_snapshot\<lparr>Data := MapRef 2\<rparr>)"
    by code_simp
  have sc: "is_scalar (Data ex_ref_snapshot)"
    by (simp add: ex_ref_snapshot_def)
  have no_obj: "\<forall>a. Data ex_ref_snapshot \<noteq> MapRef a"
    by (simp add: ex_ref_snapshot_def)
  have len: "0 < length ?h" "1 < length ?h"
    by (simp_all add: ex_store_def)
  have kept: "\<forall>x<length ?h. ?h2 ! x = ?h ! x"
    using Snapshot_shares [OF snap2 pfx push2, of ex_rank] no_obj by blast
  have k0: "?h2 ! 0 = ?h ! 0" and k1: "?h2 ! 1 = ?h ! 1"
    using kept len by blast+
  have same: "tree_of 1 [] (Data ex_ref_snapshot) = tree_of 1 ?h (Data ex_ref_snapshot)"
    using Snapshot_shares [OF snap2 pfx push2, of ex_rank] sc by blast
  show ?thesis
    by (intro conjI) (rule snap pfx push obj r al seen snap2 push2 sc k0 k1 same)+
qed

text \<open>
  Claim C8 fails as stated: in the example of the specification, the push of
  \<^verbatim>\<open>name\<close> on the snapshot adds the key to the \<^verbatim>\<open>repository\<close> object of the source.
\<close>

theorem Snapshot_shares_counterexample:
  "Snapshot ex_fm (ex_store (GoInt 42)) ex_blob = Some ex_snapshot
   \<and> Push ''name'' (GoString ''x'') (ex_store (GoInt 42), ex_snapshot)
       = (None,
          [[(''repository'', MapRef 1), (''ref'', GoString ''refs/heads/main'')],
           [(''id'', GoInt 42), (''name'', GoString ''x'')]],
          ex_snapshot)
   \<and> tree_of 3 (ex_store (GoInt 42)) (Data ex_blob)
       = Some (JObject [(''repository'', JObject [(''id'', JInt 42)]),
                        (''ref'', JString ''refs/heads/main'')])
   \<and> tree_of 3 [[(''repository'', MapRef 1), (''ref'', GoString ''refs/heads/main'')],
                 [(''id'', GoInt 42), (''name'', GoString ''x'')]] (Data ex_blob)
       = Some (JObject [(''repository'', JObject [(''id'', JInt 42), (''name'', JString ''x'')]),
                        (''ref'', JString ''refs/heads/main'')])"
  by code_simp

end
